theory Spec2Isabelle
  imports Complex_Main "HOL-Library.Word"
begin

unbundle bit_operations_syntax

section \<open>Machine types and constants of \<open>PrimeSieve\<close>\<close>

type_synonym U32 = "32 word"
type_synonym U64 = "64 word"

text \<open>
  \<^verbatim>\<open>static constexpr U64 kBitsPerSeg = 3ULL * 5 * 7 * 11 * 13 * 17;\<close>
  \<^verbatim>\<open>static constexpr U64 kBlocksPerSeg = (kBitsPerSeg + 63) >> 6;\<close>
  \<^verbatim>\<open>static constexpr U64 kUnusedBitsPerSeg = 64 - (kBitsPerSeg & 63);\<close>
  \<^verbatim>\<open>static constexpr U64 kMaxThreads = 32;\<close>
\<close>

definition kBitsPerSeg :: U64 where
  "kBitsPerSeg = 3 * 5 * 7 * 11 * 13 * 17"

definition kBlocksPerSeg :: U64 where
  "kBlocksPerSeg = drop_bit 6 (kBitsPerSeg + 63)"

definition kUnusedBitsPerSeg :: U64 where
  "kUnusedBitsPerSeg = 64 - (kBitsPerSeg AND 63)"

definition kMaxThreads :: U64 where
  "kMaxThreads = 32"

section \<open>Static helpers\<close>

text \<open>
  The unsigned remainder instruction traps on a zero divisor; the model returns \<open>None\<close>
  there, for the 64-bit and for the 32-bit operation.
\<close>

definition urem64 :: "U64 \<Rightarrow> U64 \<Rightarrow> U64 option" where
  "urem64 a b = (if b = 0 then None else Some (a mod b))"

definition urem32 :: "U32 \<Rightarrow> U32 \<Rightarrow> U32 option" where
  "urem32 a b = (if b = 0 then None else Some (a mod b))"

text \<open>
  \<^verbatim>\<open>SmartRem(U64 a, U64 b)\<close>. The flag \<open>clang\<close> is the preprocessor symbol
  \<^verbatim>\<open>__clang__\<close>: with it the body is \<^verbatim>\<open>a % b\<close>, without it
  \<^verbatim>\<open>static_cast<U32>((a | b) >> 32) ? a % b : static_cast<U32>(a) % static_cast<U32>(b)\<close>,
  whose 32-bit result is converted back to the \<^verbatim>\<open>U64\<close> return type.
\<close>

definition SmartRem :: "bool \<Rightarrow> U64 \<Rightarrow> U64 \<Rightarrow> U64 option" where
  "SmartRem clang a b =
     (if clang then urem64 a b
      else if (ucast (drop_bit 32 (a OR b)) :: U32) \<noteq> 0 then urem64 a b
      else map_option ucast (urem32 (ucast a) (ucast b)))"

text \<open>
  \<^verbatim>\<open>CountLeadingZeros\<close> and \<^verbatim>\<open>CountTrailingZeros\<close> are the instructions
  \<^verbatim>\<open>_lzcnt_u64\<close> and \<^verbatim>\<open>_tzcnt_u64\<close>: the number of zero bits above the highest
  (below the lowest) set bit, and 64 for the operand 0.
\<close>

definition CountLeadingZeros :: "U64 \<Rightarrow> U64" where
  "CountLeadingZeros x = of_nat (length (takeWhile (\<lambda>i. \<not> bit x i) (rev [0..<64])))"

definition CountTrailingZeros :: "U64 \<Rightarrow> U64" where
  "CountTrailingZeros x = of_nat (length (takeWhile (\<lambda>i. \<not> bit x i) [0..<64]))"

text \<open>
  \<^verbatim>\<open>ShiftRight(U64 x, U64 i)\<close> and \<^verbatim>\<open>ShiftLeft(U64 x, U64 i)\<close>: the count is masked
  to six bits on both preprocessor branches (\<^verbatim>\<open>i & 63ULL\<close>, or the \<^verbatim>\<open>shrx\<close> and
  \<^verbatim>\<open>shlx\<close> instructions, which mask the count themselves).
\<close>

definition ShiftRight :: "U64 \<Rightarrow> U64 \<Rightarrow> U64" where
  "ShiftRight x i = drop_bit (unat (i AND 63)) x"

definition ShiftLeft :: "U64 \<Rightarrow> U64 \<Rightarrow> U64" where
  "ShiftLeft x i = push_bit (unat (i AND 63)) x"

section \<open>The sieve object\<close>

text \<open>
  The member variables of \<^verbatim>\<open>class PrimeSieve\<close>. The heap array behind
  \<^verbatim>\<open>m_pSieve\<close> is the list of its 64-bit blocks (\<open>[]\<close> for \<^verbatim>\<open>nullptr\<close>).
  The heap of the model is unbounded: an allocation never fails.
\<close>

record PrimeSieve =
  m_pSieve :: "U64 list"
  m_numSegsAllocated :: U64
  m_numSegsComputed :: U64
  m_numThreads :: U64

text \<open>
  A read \<^verbatim>\<open>p[i]\<close> through a bitmap pointer. A read beyond the allocation is undefined
  behaviour in the source and \<open>None\<close> here.
\<close>

definition load :: "U64 list \<Rightarrow> U64 \<Rightarrow> U64 option" where
  "load p i = (if unat i < length p then Some (p ! unat i) else None)"

subsection \<open>Growth (the part of the class that the header only declares)\<close>

text \<open>
  Primality of a natural number, as the contract of the compute kernel uses the word.
\<close>

definition is_prime :: "nat \<Rightarrow> bool" where
  "is_prime n \<longleftrightarrow> 1 < n \<and> (\<forall>d \<in> {2..<n}. \<not> d dvd n)"

text \<open>
  Modelled from the spec: the bitmap contents that \<^verbatim>\<open>ComputeInternal\<close> (declared in the
  header, defined elsewhere) writes. Bit \<open>b\<close> of segment \<open>seg\<close> is set when it is a padding
  bit (\<open>b\<close> at or above \<^verbatim>\<open>kBitsPerSeg\<close>) or when its candidate, the odd number
  \<open>2 * (seg * kBitsPerSeg + b) + 1\<close>, is not prime; it is clear when the candidate is prime.
  Block \<open>i\<close> of the bitmap holds the bits \<open>64 * (i mod kBlocksPerSeg) ..\<close> of segment
  \<open>i div kBlocksPerSeg\<close>.
\<close>

definition sieve_bit :: "nat \<Rightarrow> nat \<Rightarrow> bool" where
  "sieve_bit seg b \<longleftrightarrow>
     unat kBitsPerSeg \<le> b \<or> \<not> is_prime (2 * (seg * unat kBitsPerSeg + b) + 1)"

definition sieve_word :: "nat \<Rightarrow> U64" where
  "sieve_word i =
     horner_sum of_bool 2
       (map (\<lambda>j. sieve_bit (i div unat kBlocksPerSeg) (64 * (i mod unat kBlocksPerSeg) + j))
          [0..<64])"

text \<open>
  Modelled from the spec: \<^verbatim>\<open>ComputeToInternal(newNumSegs)\<close>, declared in the header and
  defined elsewhere. It fills the segments from \<^verbatim>\<open>m_numSegsComputed\<close> up to
  \<^verbatim>\<open>newNumSegs\<close> (exclusive) with the sieve bits and then sets
  \<^verbatim>\<open>m_numSegsComputed = newNumSegs\<close>. How the work is split over threads does not show
  in the result.
\<close>

definition ComputeToInternal :: "PrimeSieve \<Rightarrow> U64 \<Rightarrow> PrimeSieve" where
  "ComputeToInternal sv newNumSegs =
     (let lo = unat kBlocksPerSeg * unat (m_numSegsComputed sv);
          hi = unat kBlocksPerSeg * unat newNumSegs
      in sv\<lparr>m_pSieve :=
              map (\<lambda>i. if lo \<le> i \<and> i < hi then sieve_word i else m_pSieve sv ! i)
                [0..<length (m_pSieve sv)],
            m_numSegsComputed := newNumSegs\<rparr>)"

text \<open>
  Modelled from the spec: \<^verbatim>\<open>GrowToInternal(newNumSegs)\<close>, declared in the header and
  defined elsewhere. A no-op when \<^verbatim>\<open>m_numSegsComputed\<close> already meets the request.
  If \<^verbatim>\<open>newNumSegs\<close> exceeds \<^verbatim>\<open>m_numSegsAllocated\<close>, a new bitmap of
  \<^verbatim>\<open>kBlocksPerSeg * newNumSegs\<close> blocks is allocated, the computed blocks are copied
  into it, and the pointer and the allocation count are updated. Then
  \<^verbatim>\<open>ComputeToInternal\<close> fills the missing segments.
\<close>

definition GrowToInternal :: "PrimeSieve \<Rightarrow> U64 \<Rightarrow> PrimeSieve" where
  "GrowToInternal sv newNumSegs =
     (if newNumSegs \<le> m_numSegsComputed sv then sv
      else ComputeToInternal
             (if m_numSegsAllocated sv < newNumSegs
              then sv\<lparr>m_pSieve :=
                        map (\<lambda>i. if i < unat kBlocksPerSeg * unat (m_numSegsComputed sv)
                                  then m_pSieve sv ! i else 0)
                          [0..<unat kBlocksPerSeg * unat newNumSegs],
                      m_numSegsAllocated := newNumSegs\<rparr>
              else sv)
             newNumSegs)"

subsection \<open>Public methods\<close>

text \<open>\<^verbatim>\<open>void GrowTo(U64 x)\<close>\<close>

definition GrowTo :: "PrimeSieve \<Rightarrow> U64 \<Rightarrow> PrimeSieve" where
  "GrowTo sv x =
     (if 3 \<le> x then GrowToInternal sv ((x - 1) div push_bit 1 kBitsPerSeg + 1) else sv)"

text \<open>
  The constructor \<^verbatim>\<open>PrimeSieve(U64 x = 0, U64 numThreads = 0)\<close>. The value that
  \<^verbatim>\<open>ComputeAutoNumThreads()\<close> (a platform call, declared only) returns is the parameter
  \<open>autoNumThreads\<close>.
\<close>

definition PrimeSieve_ctor :: "U64 \<Rightarrow> U64 \<Rightarrow> U64 \<Rightarrow> PrimeSieve" where
  "PrimeSieve_ctor autoNumThreads x numThreads =
     GrowTo
       \<lparr>m_pSieve = [], m_numSegsAllocated = 0, m_numSegsComputed = 0,
        m_numThreads =
          (if numThreads \<noteq> 0
           then (if kMaxThreads < numThreads then kMaxThreads else numThreads)
           else autoNumThreads)\<rparr>
       x"

text \<open>
  \<^verbatim>\<open>bool IsPrime(U64 x)\<close>. The result is the returned flag and the sieve after the call.
\<close>

definition IsPrime :: "PrimeSieve \<Rightarrow> U64 \<Rightarrow> (bool \<times> PrimeSieve) option" where
  "IsPrime sv x =
     (if x = 2 then Some (True, sv)
      else if x AND 1 = 0 then Some (False, sv)
      else
        let iSeg = x div push_bit 1 kBitsPerSeg;
            sv' = (if m_numSegsComputed sv \<le> iSeg then GrowToInternal sv (iSeg + 1) else sv);
            x' = drop_bit 1 x + kUnusedBitsPerSeg * iSeg
        in map_option (\<lambda>w. (w AND push_bit (unat (x' AND 63)) 1 = 0, sv'))
             (load (m_pSieve sv') (drop_bit 6 x')))"

section \<open>The forward iterator\<close>

text \<open>
  The members of \<^verbatim>\<open>class FwdIterator\<close>. The reference \<^verbatim>\<open>m_sieve\<close> is the sieve
  that every operation takes and returns; the cached pointer \<^verbatim>\<open>m_pSieve\<close> is the
  array it points to.
\<close>

record FwdIterator =
  fwd_pSieve :: "U64 list"
  fwd_block :: U64
  fwd_iBlock :: U64
  fwd_iEndBlock :: U64
  fwd_x :: U64

text \<open>
  \<^verbatim>\<open>FwdIterator::AdvanceInternal\<close>: first the \<^verbatim>\<open>while (!m_block)\<close> loop, which
  may run forever (\<open>None\<close>) \<dots>
\<close>

partial_function (option) Fwd_scan ::
  "PrimeSieve \<Rightarrow> FwdIterator \<Rightarrow> (PrimeSieve \<times> FwdIterator) option" where
  "Fwd_scan sv it =
     (if fwd_block it \<noteq> 0 then Some (sv, it)
      else
        let iB = fwd_iBlock it + 1;
            sv' = (if fwd_iEndBlock it \<le> iB
                   then GrowToInternal sv (m_numSegsComputed sv + 1) else sv);
            it' = (if fwd_iEndBlock it \<le> iB
                   then it\<lparr>fwd_iBlock := iB,
                          fwd_iEndBlock := kBlocksPerSeg * m_numSegsComputed sv',
                          fwd_pSieve := m_pSieve sv'\<rparr>
                   else it\<lparr>fwd_iBlock := iB\<rparr>)
        in case load (fwd_pSieve it') iB of
             None \<Rightarrow> None
           | Some w \<Rightarrow> Fwd_scan sv' (it'\<lparr>fwd_block := NOT w\<rparr>))"

text \<open>\<dots> then the assignment to \<^verbatim>\<open>m_x\<close>.\<close>

definition fwd_candidate :: "U64 \<Rightarrow> U64 \<Rightarrow> U64" where
  "fwd_candidate iBlock block =
     push_bit 7 iBlock + push_bit 1 (CountTrailingZeros block)
       - push_bit 1 kUnusedBitsPerSeg * (iBlock div kBlocksPerSeg) + 1"

definition Fwd_AdvanceInternal ::
  "PrimeSieve \<Rightarrow> FwdIterator \<Rightarrow> (PrimeSieve \<times> FwdIterator) option" where
  "Fwd_AdvanceInternal sv it =
     map_option
       (\<lambda>(sv', it'). (sv', it'\<lparr>fwd_x := fwd_candidate (fwd_iBlock it') (fwd_block it')\<rparr>))
       (Fwd_scan sv it)"

text \<open>The constructor \<^verbatim>\<open>FwdIterator(PrimeSieve& sieve)\<close>.\<close>

definition FwdIterator_ctor :: "PrimeSieve \<Rightarrow> FwdIterator" where
  "FwdIterator_ctor sv =
     \<lparr>fwd_pSieve = m_pSieve sv, fwd_block = 0, fwd_iBlock = NOT 0,
      fwd_iEndBlock = kBlocksPerSeg * m_numSegsComputed sv, fwd_x = 2\<rparr>"

text \<open>
  The constructor \<^verbatim>\<open>FwdIterator(PrimeSieve& sieve, U64 x)\<close>. It leaves \<^verbatim>\<open>m_x\<close>
  to \<^verbatim>\<open>AdvanceInternal\<close>, which assigns it before anything reads it.
\<close>

definition FwdIterator_ctor_from :: "PrimeSieve \<Rightarrow> U64 \<Rightarrow> (PrimeSieve \<times> FwdIterator) option" where
  "FwdIterator_ctor_from sv x =
     (let iBit_NativeSpace = drop_bit 1 (x + 1);
          iSeg = iBit_NativeSpace div kBitsPerSeg;
          sv' = (if m_numSegsComputed sv \<le> iSeg then GrowToInternal sv (iSeg + 1) else sv);
          iBit_SegSpace = iBit_NativeSpace + kUnusedBitsPerSeg * iSeg;
          iB = drop_bit 6 iBit_SegSpace
      in case load (m_pSieve sv') iB of
           None \<Rightarrow> None
         | Some w \<Rightarrow>
             Fwd_AdvanceInternal sv'
               \<lparr>fwd_pSieve = m_pSieve sv',
                fwd_block = NOT w AND push_bit (unat (iBit_SegSpace AND 63)) (NOT 0),
                fwd_iBlock = iB,
                fwd_iEndBlock = kBlocksPerSeg * m_numSegsComputed sv',
                fwd_x = 0\<rparr>)"

text \<open>\<^verbatim>\<open>FwdIterator::operator++\<close> and \<^verbatim>\<open>FwdIterator::operator*\<close>\<close>

definition Fwd_inc :: "PrimeSieve \<Rightarrow> FwdIterator \<Rightarrow> (PrimeSieve \<times> FwdIterator) option" where
  "Fwd_inc sv it = Fwd_AdvanceInternal sv (it\<lparr>fwd_block := fwd_block it AND (fwd_block it - 1)\<rparr>)"

definition Fwd_deref :: "FwdIterator \<Rightarrow> U64" where
  "Fwd_deref it = fwd_x it"

text \<open>
  \<^verbatim>\<open>IterateForwardFrom(x).begin()\<close>, that is \<^verbatim>\<open>FwdIteratorFrom::begin\<close> on the
  object that stores the sieve and \<^verbatim>\<open>x\<close>.
\<close>

definition FwdIteratorFrom_begin :: "PrimeSieve \<Rightarrow> U64 \<Rightarrow> (PrimeSieve \<times> FwdIterator) option" where
  "FwdIteratorFrom_begin sv x =
     (if 2 \<le> x then FwdIterator_ctor_from sv x else Some (sv, FwdIterator_ctor sv))"

text \<open>\<^verbatim>\<open>U64 NextPrime(U64 x)\<close>\<close>

definition NextPrime :: "PrimeSieve \<Rightarrow> U64 \<Rightarrow> (U64 \<times> PrimeSieve) option" where
  "NextPrime sv x =
     map_option (\<lambda>(sv', it). (Fwd_deref it, sv')) (FwdIteratorFrom_begin sv x)"

text \<open>
  The first \<open>n\<close> values of a range-based \<^verbatim>\<open>for\<close> loop over a forward iterator:
  \<^verbatim>\<open>operator!=\<close> against the end sentinel is always true, so the loop reads
  \<^verbatim>\<open>*it\<close> and then increments, for as long as its body goes on.
\<close>

fun Fwd_values :: "nat \<Rightarrow> PrimeSieve \<Rightarrow> FwdIterator \<Rightarrow> (U64 list \<times> PrimeSieve) option" where
  "Fwd_values 0 sv it = Some ([], sv)"
| "Fwd_values (Suc 0) sv it = Some ([Fwd_deref it], sv)"
| "Fwd_values (Suc (Suc n)) sv it =
     (case Fwd_inc sv it of
        None \<Rightarrow> None
      | Some (sv', it') \<Rightarrow>
          map_option (\<lambda>(xs, sv''). (Fwd_deref it # xs, sv'')) (Fwd_values (Suc n) sv' it'))"

definition IterateForwardFrom :: "nat \<Rightarrow> PrimeSieve \<Rightarrow> U64 \<Rightarrow> (U64 list \<times> PrimeSieve) option" where
  "IterateForwardFrom n sv x =
     (case FwdIteratorFrom_begin sv x of
        None \<Rightarrow> None
      | Some (sv', it) \<Rightarrow> Fwd_values n sv' it)"

section \<open>The reverse iterator\<close>

text \<open>The members of \<^verbatim>\<open>class RevIterator\<close>, modelled as those of the forward one.\<close>

record RevIterator =
  rev_pSieve :: "U64 list"
  rev_block :: U64
  rev_iBlock :: U64
  rev_x :: U64

definition rev_candidate :: "U64 \<Rightarrow> U64 \<Rightarrow> U64" where
  "rev_candidate iBlock block =
     push_bit 7 iBlock + push_bit 1 (CountLeadingZeros block XOR 63)
       - push_bit 1 kUnusedBitsPerSeg * (iBlock div kBlocksPerSeg) + 1"

text \<open>
  \<^verbatim>\<open>RevIterator::AdvanceInternal\<close>. It reads only the iterator's own members, the
  cached pointer among them; the sieve it was made from is returned as it was passed in.
\<close>

function Rev_scan :: "RevIterator \<Rightarrow> RevIterator option" where
  "Rev_scan it =
     (if rev_block it \<noteq> 0
      then Some (it\<lparr>rev_x := rev_candidate (rev_iBlock it) (rev_block it)\<rparr>)
      else if rev_iBlock it = 0 then Some (it\<lparr>rev_x := rev_x it - 1\<rparr>)
      else
        case load (rev_pSieve it) (rev_iBlock it - 1) of
          None \<Rightarrow> None
        | Some w \<Rightarrow> Rev_scan (it\<lparr>rev_iBlock := rev_iBlock it - 1, rev_block := NOT w\<rparr>))"
  by pat_completeness auto
termination
  by (relation "measure (\<lambda>it. unat (rev_iBlock it))")
    (auto simp: unat_minus_one unat_gt_0)

definition Rev_AdvanceInternal ::
  "PrimeSieve \<Rightarrow> RevIterator \<Rightarrow> (PrimeSieve \<times> RevIterator) option" where
  "Rev_AdvanceInternal sv it = map_option (Pair sv) (Rev_scan it)"

text \<open>
  The constructor \<^verbatim>\<open>RevIterator(PrimeSieve& sieve, U64 x)\<close>. For \<^verbatim>\<open>x <= 2\<close> it
  assigns \<^verbatim>\<open>m_x\<close> only; \<open>raw\<close> is the content of the object's storage before the
  constructor runs, which the other members keep.
\<close>

definition RevIterator_ctor ::
  "RevIterator \<Rightarrow> PrimeSieve \<Rightarrow> U64 \<Rightarrow> (PrimeSieve \<times> RevIterator) option" where
  "RevIterator_ctor raw sv x =
     (if x \<le> 2 then Some (sv, raw\<lparr>rev_x := 1\<rparr>)
      else
        let iBit_NativeSpace = drop_bit 1 x;
            iSeg = iBit_NativeSpace div kBitsPerSeg;
            sv' = (if m_numSegsComputed sv \<le> iSeg then GrowToInternal sv (iSeg + 1) else sv);
            iBit_SegSpace = iBit_NativeSpace + kUnusedBitsPerSeg * iSeg;
            iB = drop_bit 6 iBit_SegSpace
        in case load (m_pSieve sv') iB of
             None \<Rightarrow> None
           | Some w \<Rightarrow>
               Rev_AdvanceInternal sv'
                 \<lparr>rev_pSieve = m_pSieve sv',
                  rev_block = NOT (w OR ShiftLeft (NOT 0) iBit_SegSpace),
                  rev_iBlock = iB,
                  rev_x = x\<rparr>)"

text \<open>
  \<^verbatim>\<open>RevIterator::operator++\<close>, \<^verbatim>\<open>RevIterator::operator*\<close> and
  \<^verbatim>\<open>RevIterator::operator!=\<close> against the end sentinel.
\<close>

definition Rev_inc :: "PrimeSieve \<Rightarrow> RevIterator \<Rightarrow> (PrimeSieve \<times> RevIterator) option" where
  "Rev_inc sv it =
     Rev_AdvanceInternal sv
       (it\<lparr>rev_block :=
             rev_block it AND NOT (ShiftRight (push_bit 63 1) (CountLeadingZeros (rev_block it)))\<rparr>)"

definition Rev_deref :: "RevIterator \<Rightarrow> U64" where
  "Rev_deref it = rev_x it"

definition Rev_not_end :: "RevIterator \<Rightarrow> bool" where
  "Rev_not_end it \<longleftrightarrow> rev_x it \<noteq> 1"

text \<open>\<^verbatim>\<open>U64 PrevPrime(U64 x)\<close>\<close>

definition PrevPrime :: "RevIterator \<Rightarrow> PrimeSieve \<Rightarrow> U64 \<Rightarrow> (U64 \<times> PrimeSieve) option" where
  "PrevPrime raw sv x =
     map_option (\<lambda>(sv', it). (Rev_deref it, sv')) (RevIterator_ctor raw sv x)"

text \<open>
  The values of a range-based \<^verbatim>\<open>for\<close> loop over a reverse iterator, run to its end:
  while \<^verbatim>\<open>it != end()\<close>, read \<^verbatim>\<open>*it\<close> and increment. A loop that never ends
  is \<open>None\<close>.
\<close>

partial_function (option) Rev_values ::
  "U64 list \<Rightarrow> PrimeSieve \<Rightarrow> RevIterator \<Rightarrow> (U64 list \<times> PrimeSieve) option" where
  "Rev_values acc sv it =
     (if Rev_not_end it
      then (case Rev_inc sv it of
              None \<Rightarrow> None
            | Some (sv', it') \<Rightarrow> Rev_values (acc @ [Rev_deref it]) sv' it')
      else Some (acc, sv))"

definition IterateBackwardFrom ::
  "RevIterator \<Rightarrow> PrimeSieve \<Rightarrow> U64 \<Rightarrow> (U64 list \<times> PrimeSieve) option" where
  "IterateBackwardFrom raw sv x =
     (case RevIterator_ctor raw sv x of
        None \<Rightarrow> None
      | Some (sv', it) \<Rightarrow> Rev_values [] sv' it)"

text \<open>
  A sequence of calls on a reverse iterator: \<open>True\<close> is \<^verbatim>\<open>operator++\<close>, \<open>False\<close> is
  \<^verbatim>\<open>operator*\<close> (which changes nothing).
\<close>

fun Rev_calls :: "bool list \<Rightarrow> PrimeSieve \<Rightarrow> RevIterator \<Rightarrow> (PrimeSieve \<times> RevIterator) option" where
  "Rev_calls [] sv it = Some (sv, it)"
| "Rev_calls (True # cs) sv it =
     (case Rev_inc sv it of None \<Rightarrow> None | Some (sv', it') \<Rightarrow> Rev_calls cs sv' it')"
| "Rev_calls (False # cs) sv it = Rev_calls cs sv it"

section \<open>Constants\<close>

lemma kBitsPerSeg_val: "kBitsPerSeg = 255255"
  by (simp add: kBitsPerSeg_def)

lemma kBlocksPerSeg_val: "kBlocksPerSeg = 3989"
  by (simp add: kBlocksPerSeg_def kBitsPerSeg_val drop_bit_eq_div)

lemma kUnusedBitsPerSeg_val: "kUnusedBitsPerSeg = 41"
  by (simp add: kUnusedBitsPerSeg_def kBitsPerSeg_val)


text \<open>
  Claim C4 (as amended). The padding of a segment is \<open>64 * kBlocksPerSeg - kBitsPerSeg\<close>
  bits, and that is 41 bits (not 57), with \<open>kBitsPerSeg = 3 * 5 * 7 * 11 * 13 * 17 = 255255\<close>
  and \<open>kBlocksPerSeg = 3989\<close>, the number of bits divided by 64 and rounded up.
\<close>

theorem kUnusedBitsPerSeg_is_41:
  "kUnusedBitsPerSeg = 64 * kBlocksPerSeg - kBitsPerSeg
   \<and> kUnusedBitsPerSeg = 41
   \<and> kBitsPerSeg = 3 * 5 * 7 * 11 * 13 * 17 \<and> kBitsPerSeg = 255255
   \<and> kBlocksPerSeg = 3989 \<and> unat kBlocksPerSeg = (unat kBitsPerSeg + 63) div 64"
  by (simp add: kUnusedBitsPerSeg_val kBlocksPerSeg_val kBitsPerSeg_val)

text \<open>The value 57 that claim C4 states is not the value of the constant.\<close>

theorem kUnusedBitsPerSeg_not_57:
  "\<not> (kUnusedBitsPerSeg = 64 * kBlocksPerSeg - kBitsPerSeg \<and> kUnusedBitsPerSeg = 57
      \<and> kBitsPerSeg = 255255 \<and> kBlocksPerSeg = 3989)"
  by (simp add: kUnusedBitsPerSeg_val)

section \<open>Words as natural numbers\<close>

lemma unat_lt_2p64: "unat (x :: U64) < 18446744073709551616"
  using unsigned_less [of x] by simp

lemma unat_lt_2p32: "unat (x :: U32) < 4294967296"
  using unsigned_less [of x] by simp

lemma unat_ucast_64_32: "unat (ucast (x :: U64) :: U32) = unat x mod 4294967296"
  by (simp add: unsigned_ucast_eq take_bit_eq_mod)

lemma unat_ucast_32_64: "unat (ucast (x :: U32) :: U64) = unat x"
  using unat_lt_2p32 [of x] by (simp add: unsigned_ucast_eq take_bit_eq_mod)

lemma unat_drop_bit_div: "unat (drop_bit n (w :: 'a::len word)) = unat w div 2 ^ n"
  by (subst unat_drop_bit_eq) (rule drop_bit_eq_div)

lemma unat_hi32: "unat (ucast (drop_bit 32 (x :: U64)) :: U32) = unat x div 4294967296"
proof -
  have "unat x div 4294967296 < 4294967296"
    using unat_lt_2p64 [of x] by (simp add: less_mult_imp_div_less)
  moreover have "unat (drop_bit 32 x) = unat x div 4294967296"
    by (simp only: unat_drop_bit_div) simp
  ultimately show ?thesis
    by (simp only: unat_ucast_64_32) simp
qed

lemma hi32_zero_iff:
  "(ucast (drop_bit 32 (x :: U64)) :: U32) = 0 \<longleftrightarrow> unat x < 4294967296"
proof -
  have "(ucast (drop_bit 32 x) :: U32) = 0 \<longleftrightarrow> unat (ucast (drop_bit 32 x) :: U32) = 0"
    by (simp only: unat_eq_0)
  also have "\<dots> \<longleftrightarrow> unat x < 4294967296"
    by (simp only: unat_hi32 div_eq_0_iff) simp
  finally show ?thesis .
qed

lemma hi32_or_zero_iff:
  "(ucast (drop_bit 32 ((a :: U64) OR b)) :: U32) = 0
     \<longleftrightarrow> unat a < 4294967296 \<and> unat b < 4294967296"
proof -
  have "(ucast (drop_bit 32 (a OR b)) :: U32) = 0 \<longleftrightarrow> drop_bit 32 (a OR b) = 0"
  proof -
    have "drop_bit 32 (a OR b) = 0 \<longleftrightarrow> unat (drop_bit 32 (a OR b)) = 0"
      by (simp only: unat_eq_0)
    also have "\<dots> \<longleftrightarrow> unat (a OR b) < 4294967296"
      by (simp only: unat_drop_bit_div div_eq_0_iff) simp
    finally show ?thesis by (simp only: hi32_zero_iff)
  qed
  also have "\<dots> \<longleftrightarrow> drop_bit 32 a = 0 \<and> drop_bit 32 b = 0"
    by (simp only: drop_bit_or or_eq_0_iff)
  also have "\<dots> \<longleftrightarrow> unat (drop_bit 32 a) = 0 \<and> unat (drop_bit 32 b) = 0"
    by (simp only: unat_eq_0)
  also have "\<dots> \<longleftrightarrow> unat a < 4294967296 \<and> unat b < 4294967296"
    by (simp only: unat_drop_bit_div div_eq_0_iff) simp
  finally show ?thesis .
qed

lemma rem32_eq_rem64:
  assumes a: "unat (a :: U64) < 4294967296" and b: "unat (b :: U64) < 4294967296"
  shows "(ucast ((ucast a :: U32) mod ucast b) :: U64) = a mod b"
proof -
  have "unat (ucast ((ucast a :: U32) mod ucast b) :: U64)
          = unat (ucast a :: U32) mod unat (ucast b :: U32)"
    by (simp only: unat_ucast_32_64 unat_mod)
  also have "\<dots> = unat a mod unat b"
    using a b by (simp only: unat_ucast_64_32) simp
  also have "\<dots> = unat (a mod b)"
    by (simp only: unat_mod)
  finally show ?thesis
    by (simp only: word_unat_eq_iff)
qed

lemma ucast32_eq_0_iff:
  assumes "unat (b :: U64) < 4294967296"
  shows "(ucast b :: U32) = 0 \<longleftrightarrow> b = 0"
proof -
  have "(ucast b :: U32) = 0 \<longleftrightarrow> unat (ucast b :: U32) = 0"
    by (simp only: unat_eq_0)
  also have "\<dots> \<longleftrightarrow> unat b = 0"
    using assms by (simp only: unat_ucast_64_32) simp
  also have "\<dots> \<longleftrightarrow> b = 0"
    by (simp only: unat_eq_0)
  finally show ?thesis .
qed


section \<open>\<open>SmartRem\<close>\<close>

text \<open>
  Claim C7. For every \<open>a\<close> and every \<open>b\<close> other than 0, \<open>SmartRem a b\<close> returns
  \<open>a mod b\<close>, on the branch compiled for clang and on the other one, where the 32-bit
  remainder is taken when both operands fit in 32 bits.
\<close>

theorem SmartRem_is_rem:
  "b \<noteq> 0 \<Longrightarrow> SmartRem clang a b = Some (a mod b)"
proof -
  assume nz: "b \<noteq> 0"
  show ?thesis
  proof (cases "clang \<or> (ucast (drop_bit 32 (a OR b)) :: U32) \<noteq> 0")
    case True
    then have "SmartRem clang a b = urem64 a b"
      unfolding SmartRem_def by presburger
    with nz show ?thesis by (simp only: urem64_def if_False)
  next
    case False
    then have small: "unat a < 4294967296" "unat b < 4294967296"
      by (simp_all only: hi32_or_zero_iff de_Morgan_disj not_not)
    from False have "SmartRem clang a b = map_option ucast (urem32 (ucast a) (ucast b))"
      unfolding SmartRem_def by presburger
    also have "urem32 (ucast a) (ucast b) = Some ((ucast a :: U32) mod ucast b)"
      using nz small(2) by (simp only: urem32_def ucast32_eq_0_iff if_False)
    finally show ?thesis
      using small by (simp only: option.map rem32_eq_rem64)
  qed
qed


theorem SmartRem_is_rem_witness:
  "(3 :: U64) \<noteq> 0 \<and> SmartRem False 7 3 = Some 1
   \<and> (4294967297 :: U64) \<noteq> 0 \<and> SmartRem False 18446744073709551615 4294967297 = Some 0"
  using SmartRem_is_rem [of 3 False 7]
    SmartRem_is_rem [of 4294967297 False 18446744073709551615]
  by simp

section \<open>Growth and construction\<close>

lemma ComputeToInternal_fields:
  "m_numSegsComputed (ComputeToInternal sv n) = n"
  "m_numSegsAllocated (ComputeToInternal sv n) = m_numSegsAllocated sv"
  "m_numThreads (ComputeToInternal sv n) = m_numThreads sv"
  by (simp_all add: ComputeToInternal_def Let_def)

lemma GrowToInternal_noop:
  "n \<le> m_numSegsComputed sv \<Longrightarrow> GrowToInternal sv n = sv"
  by (simp add: GrowToInternal_def)

lemma GrowToInternal_computed:
  "n \<le> m_numSegsComputed (GrowToInternal sv n)"
  by (simp add: GrowToInternal_def ComputeToInternal_fields)

lemma GrowToInternal_numThreads:
  "m_numThreads (GrowToInternal sv n) = m_numThreads sv"
  by (simp add: GrowToInternal_def ComputeToInternal_fields)

lemma GrowTo_numThreads:
  "m_numThreads (GrowTo sv x) = m_numThreads sv"
  by (simp add: GrowTo_def GrowToInternal_numThreads)


text \<open>
  Claim C6. A second \<open>GrowTo x\<close> right after a first one changes nothing; \<open>GrowTo x\<close>
  with \<open>x < 3\<close> changes nothing at all; and \<open>GrowToInternal\<close> is a no-op when
  \<open>m_numSegsComputed\<close> already meets the request.
\<close>

theorem GrowTo_idempotent:
  "GrowTo (GrowTo sv x) x = GrowTo sv x
   \<and> (x < 3 \<longrightarrow> GrowTo sv x = sv)
   \<and> (n \<le> m_numSegsComputed sv \<longrightarrow> GrowToInternal sv n = sv)"
proof (intro conjI impI)
  show "GrowTo (GrowTo sv x) x = GrowTo sv x"
  proof (cases "3 \<le> x")
    case True
    then show ?thesis
      by (simp add: GrowTo_def GrowToInternal_noop [OF GrowToInternal_computed])
  next
    case False
    then show ?thesis by (simp add: GrowTo_def)
  qed
next
  assume "x < 3"
  then show "GrowTo sv x = sv" by (simp add: GrowTo_def not_le [symmetric])
next
  assume "n \<le> m_numSegsComputed sv"
  then show "GrowToInternal sv n = sv" by (rule GrowToInternal_noop)
qed


theorem GrowTo_idempotent_witness:
  "GrowTo (GrowTo (PrimeSieve_ctor 1 0 1) 1000000) 1000000 = GrowTo (PrimeSieve_ctor 1 0 1) 1000000
   \<and> (2 :: U64) < 3 \<and> GrowTo (PrimeSieve_ctor 1 0 1) 2 = PrimeSieve_ctor 1 0 1
   \<and> 0 \<le> m_numSegsComputed (PrimeSieve_ctor 1 0 1)
   \<and> GrowToInternal (PrimeSieve_ctor 1 0 1) 0 = PrimeSieve_ctor 1 0 1"
  using GrowTo_idempotent [of "PrimeSieve_ctor 1 0 1" 1000000 0]
    GrowTo_idempotent [of "PrimeSieve_ctor 1 0 1" 2 0]
  by simp

lemma ctor_numThreads_val:
  "m_numThreads (PrimeSieve_ctor autoNumThreads x numThreads) =
     (if numThreads \<noteq> 0 then (if kMaxThreads < numThreads then kMaxThreads else numThreads)
      else autoNumThreads)"
  by (simp only: PrimeSieve_ctor_def GrowTo_numThreads PrimeSieve.simps)

text \<open>
  Claim C10. For a constructor argument \<open>numThreads\<close> of at least 1, whatever the initial
  bound, the thread count of the constructed sieve is \<open>min numThreads kMaxThreads\<close>, that
  is \<open>min numThreads 32\<close>; it lies between 1 and 32.
\<close>

theorem ctor_numThreads:
  "numThreads \<noteq> 0 \<Longrightarrow>
     m_numThreads (PrimeSieve_ctor autoNumThreads x numThreads) = min numThreads kMaxThreads
     \<and> m_numThreads (PrimeSieve_ctor autoNumThreads x numThreads) = min numThreads 32
     \<and> 1 \<le> m_numThreads (PrimeSieve_ctor autoNumThreads x numThreads)
     \<and> m_numThreads (PrimeSieve_ctor autoNumThreads x numThreads) \<le> 32"
proof -
  assume nz: "numThreads \<noteq> 0"
  have k: "kMaxThreads = 32" by (rule kMaxThreads_def)
  have pos: "0 < unat numThreads" using nz by (simp add: unat_gt_0)
  show ?thesis
  proof (cases "kMaxThreads < numThreads")
    case True
    then have "m_numThreads (PrimeSieve_ctor autoNumThreads x numThreads) = kMaxThreads"
      using nz by (simp only: ctor_numThreads_val if_True not_False_eq_True)
    moreover from True have "min numThreads kMaxThreads = kMaxThreads"
      by (simp only: min_def not_le [symmetric] if_False)
    ultimately show ?thesis
      by (simp add: k)
  next
    case False
    then have v: "m_numThreads (PrimeSieve_ctor autoNumThreads x numThreads) = numThreads"
      using nz by (simp only: ctor_numThreads_val if_True if_False not_False_eq_True)
    from False have le: "numThreads \<le> kMaxThreads"
      by (simp only: not_less)
    then have m: "min numThreads kMaxThreads = numThreads"
      by (simp only: min_def if_True)
    have "1 \<le> numThreads"
      using pos by (simp add: word_le_nat_alt)
    with v m le show ?thesis
      by (simp add: k)
  qed
qed

theorem ctor_numThreads_witness:
  "(100 :: U64) \<noteq> 0 \<and> m_numThreads (PrimeSieve_ctor 8 1000 100) = 32
   \<and> (5 :: U64) \<noteq> 0 \<and> m_numThreads (PrimeSieve_ctor 8 0 5) = 5"
proof -
  have a: "(100 :: U64) \<noteq> 0" and b: "(5 :: U64) \<noteq> 0"
    by simp_all
  have "m_numThreads (PrimeSieve_ctor 8 1000 100) = min 100 32"
    using ctor_numThreads [OF a, of 8 1000] by blast
  moreover have "m_numThreads (PrimeSieve_ctor 8 0 5) = min 5 32"
    using ctor_numThreads [OF b, of 8 0] by blast
  ultimately show ?thesis
    by simp
qed

section \<open>Frame properties\<close>

text \<open>
  Claim C9. For \<open>x = 2\<close> and for every even \<open>x\<close>, however large, \<open>IsPrime\<close> returns
  (\<open>True\<close> for 2, \<open>False\<close> otherwise) with the sieve as it was: nothing is read from the
  bitmap, which may be empty, and nothing is grown or allocated.
\<close>

theorem IsPrime_even_frame:
  "x = 2 \<or> x AND 1 = 0 \<Longrightarrow> IsPrime sv x = Some (x = 2, sv)"
  by (auto simp: IsPrime_def)

theorem IsPrime_even_frame_witness:
  "((18446744073709551614 :: U64) = 2 \<or> (18446744073709551614 :: U64) AND 1 = 0)
   \<and> IsPrime (PrimeSieve_ctor 1 0 1) 18446744073709551614 = Some (False, PrimeSieve_ctor 1 0 1)
   \<and> IsPrime (PrimeSieve_ctor 1 0 1) 2 = Some (True, PrimeSieve_ctor 1 0 1)"
  using IsPrime_even_frame [of 18446744073709551614 "PrimeSieve_ctor 1 0 1"]
    IsPrime_even_frame [of 2 "PrimeSieve_ctor 1 0 1"]
  by simp


section \<open>Bits, blocks and the packed layout\<close>

subsection \<open>Counting zeros\<close>

lemma upt_split: "k < n \<Longrightarrow> [0..<n] = [0..<k] @ k # [Suc k..<n]"
proof -
  assume "k < n"
  then have "[0..<n] = [0..<k] @ [k..<n]"
    using upt_add_eq_append [of 0 k "n - k"] by simp
  also have "[k..<n] = k # [Suc k..<n]"
    using \<open>k < n\<close> by (rule upt_conv_Cons)
  finally show ?thesis .
qed

lemma takeWhile_upt_first:
  assumes "k < n" and "\<not> P k" and "\<forall>j<k. P j"
  shows "length (takeWhile P [0..<n]) = k"
proof -
  have "[0..<n] = [0..<k] @ k # [Suc k..<n]"
    using assms(1) by (rule upt_split)
  moreover have "\<forall>x \<in> set [0..<k]. P x"
    using assms(3) by simp
  ultimately have "takeWhile P [0..<n] = [0..<k] @ takeWhile P (k # [Suc k..<n])"
    by (simp only: takeWhile_append2)
  with assms(2) show ?thesis by simp
qed

lemma takeWhile_rev_upt_first:
  assumes "k < n" and "\<not> P k" and "\<forall>j. k < j \<and> j < n \<longrightarrow> P j"
  shows "length (takeWhile P (rev [0..<n])) = n - Suc k"
proof -
  have "[0..<n] = [0..<k] @ k # [Suc k..<n]"
    using assms(1) by (rule upt_split)
  then have "rev [0..<n] = rev [Suc k..<n] @ k # rev [0..<k]"
    by simp
  moreover have "\<forall>x \<in> set (rev [Suc k..<n]). P x"
    using assms(3) by simp
  ultimately have "takeWhile P (rev [0..<n]) = rev [Suc k..<n] @ takeWhile P (k # rev [0..<k])"
    by (simp only: takeWhile_append2)
  with assms(2) show ?thesis by simp
qed

lemma CountTrailingZeros_eq:
  assumes "k < 64" and "bit x k" and "\<forall>j<k. \<not> bit x j"
  shows "CountTrailingZeros x = of_nat k"
  unfolding CountTrailingZeros_def
  using takeWhile_upt_first [of k 64 "\<lambda>i. \<not> bit x i"] assms by simp

lemma CountLeadingZeros_eq:
  assumes "k < 64" and "bit x k" and "\<forall>j. k < j \<and> j < 64 \<longrightarrow> \<not> bit x j"
  shows "CountLeadingZeros x = of_nat (63 - k)"
  unfolding CountLeadingZeros_def
  using takeWhile_rev_upt_first [of k 64 "\<lambda>i. \<not> bit x i"] assms by simp

lemma CountLeadingZeros_0: "CountLeadingZeros 0 = 64"
  by (simp add: CountLeadingZeros_def takeWhile_eq_all_conv [THEN iffD2])

lemma CountTrailingZeros_0: "CountTrailingZeros 0 = 64"
  by (simp add: CountTrailingZeros_def takeWhile_eq_all_conv [THEN iffD2])

lemma xor_mask6:
  fixes a :: U64
  assumes "take_bit 6 a = a"
  shows "(mask 6 - a) XOR mask 6 = a"
proof -
  have "mask 6 - a = mask 6 - take_bit 6 a"
    by (simp only: assms)
  also have "\<dots> = take_bit 6 (NOT a)"
    by (simp only: take_bit_not_eq_mask_diff)
  finally have "(mask 6 - a) XOR mask 6 = take_bit 6 (NOT a) XOR mask 6"
    by simp
  also have "\<dots> = take_bit 6 a"
    by (rule bit_eqI) (auto simp: bit_simps)
  finally show ?thesis
    by (simp only: assms)
qed

lemma xor_63: 
  assumes "k < 64"
  shows "(of_nat (63 - k) :: U64) XOR 63 = of_nat k"
proof -
  have "take_bit 6 (of_nat k :: U64) = of_nat k"
  proof -
    have "unat (drop_bit 6 (of_nat k :: U64)) = 0"
      using assms by (simp only: unat_drop_bit_div unat_of_nat) simp
    then show ?thesis
      by (simp only: take_bit_eq_self_iff_drop_bit_eq_0 unat_eq_0)
  qed
  from xor_mask6 [OF this] have "((mask 6 :: U64) - of_nat k) XOR mask 6 = of_nat k" .
  moreover have "(of_nat (63 - k) :: U64) = 63 - of_nat k"
    using assms by (simp add: of_nat_diff)
  moreover have "(mask 6 :: U64) = 63"
    by (simp add: mask_eq_exp_minus_1)
  ultimately show ?thesis by simp
qed

subsection \<open>The constants as natural numbers\<close>

lemma unat_kBitsPerSeg: "unat kBitsPerSeg = 255255"
  by (simp add: kBitsPerSeg_val)

lemma unat_kBlocksPerSeg: "unat kBlocksPerSeg = 3989"
  by (simp add: kBlocksPerSeg_val)

lemma unat_kUnusedBitsPerSeg: "unat kUnusedBitsPerSeg = 41"
  by (simp add: kUnusedBitsPerSeg_val)

subsection \<open>Arithmetic of the packed layout\<close>

lemma block_seg: "(i div 64) div 3989 = i div (255296 :: nat)"
  by (simp add: div_mult2_eq)

lemma packed_div: "b < 255296 \<Longrightarrow> (s * 255296 + b) div 255296 = (s :: nat)"
  by simp

lemma packed_mod: "b < 255296 \<Longrightarrow> (s * 255296 + b) mod 255296 = (b :: nat)"
  by simp

lemma packed_index: "s * 255255 + b + 41 * s = s * 255296 + (b :: nat)"
  by simp

lemma block_bit_sum: "128 * (i div 64) + 2 * (i mod 64) = 2 * (i :: nat)"
proof -
  have "64 * (i div 64) + i mod 64 = i"
    by (rule mult_div_mod_eq)
  then show ?thesis
    by linarith
qed

lemma recover_nat:
  fixes s b :: nat
  assumes "b < 255255"
  defines "i \<equiv> s * 255255 + b + 41 * s"
  shows "128 * (i div 64) + 2 * (i mod 64) + 1 = 2 * (s * 255255 + b) + 1 + 82 * ((i div 64) div 3989)"
proof -
  have i: "i = s * 255296 + b" unfolding i_def by simp
  have "b < 255296" using assms(1) by simp
  then have "(s * 255296 + b) div 255296 = s" by (rule packed_div)
  then have "(i div 64) div 3989 = s"
    by (simp only: block_seg i)
  then show ?thesis
    by (simp only: block_bit_sum) (simp add: i)
qed

subsection \<open>Word arithmetic through \<open>of_nat\<close>\<close>

lemma of_nat_div_U64:
  assumes "q < 18446744073709551616" and "d < 18446744073709551616"
  shows "(of_nat q :: U64) div of_nat d = of_nat (q div d)"
  using assms by (subst word_arith_nat_div) (simp add: unat_of_nat)

lemma push_bit_of_nat_U64: "push_bit n (of_nat q :: U64) = of_nat (2 ^ n * q)"
  by (simp add: push_bit_eq_mult)

lemma candidate_word:
  fixes s b :: nat
  assumes b: "b < 255255" and fit: "2 * (s * 255255 + b) + 1 < 18446744073709551616"
  defines "i \<equiv> s * 255255 + b + 41 * s"
  assumes z: "z = (of_nat (i mod 64) :: U64)"
  shows "push_bit 7 (of_nat (i div 64) :: U64) + push_bit 1 z
           - push_bit 1 kUnusedBitsPerSeg * (of_nat (i div 64) div kBlocksPerSeg) + 1
         = of_nat (2 * (s * 255255 + b) + 1)"
proof -
  have i: "i = s * 255296 + b" unfolding i_def by simp
  have "b < 255296" using b by simp
  then have "(s * 255296 + b) div 255296 = s" by (rule packed_div)
  then have seg: "(i div 64) div 3989 = s"
    by (simp only: block_seg i)
  have "s * 255255 < 9223372036854775808" using fit by simp
  then have s_small: "s * 255296 < 18446744073709551616 - 255296" by simp
  have i_small: "i div 64 < 18446744073709551616"
    using s_small b unfolding i by simp
  have d: "(of_nat (i div 64) :: U64) div kBlocksPerSeg = of_nat s"
    using of_nat_div_U64 [of "i div 64" 3989] i_small seg by (simp add: kBlocksPerSeg_val)
  have "push_bit 7 (of_nat (i div 64) :: U64) + push_bit 1 z + 1
          = of_nat (128 * (i div 64) + 2 * (i mod 64) + 1)"
    by (simp add: push_bit_eq_mult z)
  also have "128 * (i div 64) + 2 * (i mod 64) + 1 = 2 * (s * 255255 + b) + 1 + 82 * s"
    using recover_nat [OF b, of s] seg unfolding i_def by simp
  finally have "push_bit 7 (of_nat (i div 64) :: U64) + push_bit 1 z + 1
      = of_nat (2 * (s * 255255 + b) + 1) + 82 * of_nat s"
    by simp
  moreover have "push_bit 1 kUnusedBitsPerSeg * (of_nat (i div 64) div kBlocksPerSeg) = (82 * of_nat s :: U64)"
    by (simp add: d kUnusedBitsPerSeg_val)
  ultimately show ?thesis
    by (simp add: algebra_simps)
qed

lemma bit_above_unat:
  fixes w :: U64
  assumes "unat w < 2 ^ n" and "n \<le> k"
  shows "\<not> bit w k"
proof -
  have "(2 :: nat) ^ n \<le> 2 ^ k" using assms(2) by simp
  with assms(1) have "unat w < 2 ^ k" by (rule less_le_trans)
  then have "unat w div 2 ^ k = 0" by (rule div_less)
  then have "\<not> bit (unat w) k" by (simp add: bit_iff_odd)
  then show ?thesis by (simp add: bit_unsigned_iff)
qed


section \<open>The recovery formula\<close>

text \<open>
  Claim C5. For a segment index \<open>s\<close> and a bit index \<open>b\<close> below \<open>kBitsPerSeg\<close>, let
  \<open>i = s * kBitsPerSeg + b + kUnusedBitsPerSeg * s\<close> be the packed bit index, in block
  \<open>i div 64\<close> at bit \<open>i mod 64\<close>, and \<open>x = 2 * (s * kBitsPerSeg + b) + 1\<close> the candidate.
  Over the integers the recovery formula gives \<open>x\<close>, for every \<open>s\<close>. In the 64-bit
  arithmetic of the iterators, whenever \<open>x\<close> is a 64-bit value: for a block whose lowest
  set bit is \<open>i mod 64\<close> the count of trailing zeros is \<open>i mod 64\<close> and the forward
  formula gives \<open>x\<close>; for a block whose highest set bit is \<open>i mod 64\<close>, 63 minus the
  count of leading zeros (computed as an exclusive or) is \<open>i mod 64\<close> and the reverse
  formula gives \<open>x\<close>.
\<close>

theorem candidate_recovery:
  fixes s b i x :: nat
  assumes "b < unat kBitsPerSeg"
    and i: "i = s * unat kBitsPerSeg + b + unat kUnusedBitsPerSeg * s"
    and x: "x = 2 * (s * unat kBitsPerSeg + b) + 1"
  shows "int (i div 64) * 128 + 2 * int (i mod 64)
           - 2 * int (unat kUnusedBitsPerSeg) * int ((i div 64) div unat kBlocksPerSeg) + 1 = int x
    \<and> (x < 2 ^ 64 \<longrightarrow>
         (\<forall>block. bit block (i mod 64) \<and> (\<forall>k<i mod 64. \<not> bit block k) \<longrightarrow>
            CountTrailingZeros block = of_nat (i mod 64)
            \<and> fwd_candidate (of_nat (i div 64)) block = of_nat x)
       \<and> (\<forall>block. bit block (i mod 64) \<and> (\<forall>k. i mod 64 < k \<and> k < 64 \<longrightarrow> \<not> bit block k) \<longrightarrow>
            CountLeadingZeros block XOR 63 = of_nat (i mod 64)
            \<and> rev_candidate (of_nat (i div 64)) block = of_nat x))"
proof (intro conjI impI allI)
  have b: "b < 255255" using assms(1) by (simp only: unat_kBitsPerSeg)
  have i': "i = s * 255255 + b + 41 * s"
    by (simp only: i unat_kBitsPerSeg unat_kUnusedBitsPerSeg)
  have x': "x = 2 * (s * 255255 + b) + 1"
    by (simp only: x unat_kBitsPerSeg)
  have "128 * (i div 64) + 2 * (i mod 64) + 1 = x + 82 * ((i div 64) div 3989)"
    using recover_nat [OF b, of s] by (simp only: i' x')
  then have "int (128 * (i div 64) + 2 * (i mod 64) + 1) = int (x + 82 * ((i div 64) div 3989))"
    by (simp only:)
  then show "int (i div 64) * 128 + 2 * int (i mod 64)
           - 2 * int (unat kUnusedBitsPerSeg) * int ((i div 64) div unat kBlocksPerSeg) + 1 = int x"
    by (simp add: unat_kUnusedBitsPerSeg unat_kBlocksPerSeg)
  {
    fix z :: U64
    assume fit: "x < 2 ^ 64" and z: "z = of_nat (i mod 64)"
    have "2 * (s * 255255 + b) + 1 < 18446744073709551616"
      using fit by (simp add: x')
    from candidate_word [OF b this z [unfolded i']]
    have "push_bit 7 (of_nat (i div 64) :: U64) + push_bit 1 z
           - push_bit 1 kUnusedBitsPerSeg * (of_nat (i div 64) div kBlocksPerSeg) + 1 = of_nat x"
      by (simp only: i' x')
  }
  note word = this
  {
    fix block :: U64
    assume fit: "x < 2 ^ 64"
      and blk: "bit block (i mod 64) \<and> (\<forall>k<i mod 64. \<not> bit block k)"
    show ctz: "CountTrailingZeros block = of_nat (i mod 64)"
      using blk by (intro CountTrailingZeros_eq) simp_all
    show "fwd_candidate (of_nat (i div 64)) block = of_nat x"
      unfolding fwd_candidate_def by (rule word [OF fit ctz])
  }
  {
    fix block :: U64
    assume fit: "x < 2 ^ 64"
      and blk: "bit block (i mod 64) \<and> (\<forall>k. i mod 64 < k \<and> k < 64 \<longrightarrow> \<not> bit block k)"
    have "CountLeadingZeros block = of_nat (63 - i mod 64)"
      using blk by (intro CountLeadingZeros_eq) simp_all
    then show clz: "CountLeadingZeros block XOR 63 = of_nat (i mod 64)"
      using xor_63 [of "i mod 64"] by simp
    show "rev_candidate (of_nat (i div 64)) block = of_nat x"
      unfolding rev_candidate_def by (rule word [OF fit clz])
  }
qed

theorem candidate_recovery_witness:
  "(5 :: nat) < unat kBitsPerSeg
   \<and> fwd_candidate 3989 96 = 510521 \<and> rev_candidate 3989 35 = 510521"
proof -
  have b: "(5 :: nat) < unat kBitsPerSeg"
    by (simp add: unat_kBitsPerSeg)
  have i: "(255301 :: nat) = 1 * unat kBitsPerSeg + 5 + unat kUnusedBitsPerSeg * 1"
    by (simp add: unat_kBitsPerSeg unat_kUnusedBitsPerSeg)
  have x: "(510521 :: nat) = 2 * (1 * unat kBitsPerSeg + 5) + 1"
    by (simp add: unat_kBitsPerSeg)
  have fit: "(510521 :: nat) < 2 ^ 64"
    by simp
  have m: "(255301 :: nat) mod 64 = 5"
    by simp
  have fwd: "bit (96 :: U64) (255301 mod 64) \<and> (\<forall>k<255301 mod 64. \<not> bit (96 :: U64) k)"
    unfolding m by (simp add: All_less_Suc numeral_eq_Suc)
  have rev: "bit (35 :: U64) (255301 mod 64)
      \<and> (\<forall>k. 255301 mod 64 < k \<and> k < 64 \<longrightarrow> \<not> bit (35 :: U64) k)"
    unfolding m using bit_above_unat [of 35 6] by simp
  from candidate_recovery [OF b i x] fit fwd rev
  have "fwd_candidate (of_nat (255301 div 64)) 96 = of_nat 510521"
    and "rev_candidate (of_nat (255301 div 64)) 35 = of_nat 510521"
    by blast+
  with b show ?thesis
    by simp
qed

end
